theory Spec2Isabelle
  imports Complex_Main "HOL-Library.Multiset"
begin

section \<open>Python floats\<close>

text \<open>
  A Python \<^verbatim>\<open>float\<close> is an IEEE-754 binary64 number. It is modelled by the rational
  number it denotes; every arithmetic operation computes the exact result and rounds it to
  53 significant bits, ties to even (\<open>fl\<close>). The exponent range is not bounded: overflow
  to infinity, subnormal numbers and NaN are outside the model, so the model agrees with
  CPython as long as every magnitude stays inside the binary64 range, and \<open>-0.0\<close> is
  identified with \<open>0.0\<close> (they compare equal in Python).
\<close>

type_synonym pyfloat = rat

definition rhe :: "rat \<Rightarrow> int" where
  \<comment> \<open>round to the nearest integer, ties to the even one\<close>
  "rhe x = (let f = \<lfloor>x\<rfloor>; d = x - of_int f in
            if d < 1/2 then f else if 1/2 < d then f + 1 else if even f then f else f + 1)"

function flog :: "nat \<Rightarrow> rat \<Rightarrow> nat" where
  "flog b x = (if b < 2 \<or> x < of_nat b then 0 else Suc (flog b (x / of_nat b)))"
  by pat_completeness auto
termination
proof (relation "measure (\<lambda>(b, x). nat \<lfloor>x\<rfloor>)", goal_cases)
  case 1 show ?case by simp
next
  case (2 b x)
  then have b: "2 \<le> b" and x: "of_nat b \<le> x" by auto
  have b2: "(2::rat) \<le> of_nat b" using b by (metis of_nat_numeral of_nat_le_iff)
  then have "x / of_nat b \<le> x / 2" using x by (intro divide_left_mono) auto
  moreover have "2 \<le> x" using x b2 by linarith
  ultimately have "\<lfloor>x / of_nat b\<rfloor> < \<lfloor>x\<rfloor>" by linarith
  moreover have "0 < \<lfloor>x\<rfloor>" using \<open>2 \<le> x\<close> by linarith
  ultimately show ?case by simp
qed

function cexp :: "nat \<Rightarrow> rat \<Rightarrow> nat" where
  "cexp b x = (if b < 2 \<or> x \<le> 0 \<or> 1 \<le> x then 0 else Suc (cexp b (x * of_nat b)))"
  by pat_completeness auto
termination
proof (relation "measure (\<lambda>(b, x). nat \<lceil>1 / x\<rceil>)", goal_cases)
  case 1 show ?case by simp
next
  case (2 b x)
  then have b: "2 \<le> b" and x: "0 < x" "x < 1" by auto
  have b2: "(2::rat) \<le> of_nat b" using b by (metis of_nat_numeral of_nat_le_iff)
  define y where "y = 1 / x"
  define z where "z = 1 / (x * of_nat b)"
  have y1: "1 < y" using x by (simp add: y_def)
  have "z = y / of_nat b" by (simp add: y_def z_def)
  also have "\<dots> \<le> y / 2" using y1 b2 by (intro divide_left_mono) auto
  finally have le: "z \<le> y / 2" .
  have c2: "2 \<le> \<lceil>y\<rceil>" using y1 by linarith
  have "y \<le> of_int \<lceil>y\<rceil>" by (rule le_of_int_ceiling)
  then have "z \<le> of_int \<lceil>y\<rceil> / 2" using le by linarith
  also have "\<dots> \<le> of_int (\<lceil>y\<rceil> - 1)" using c2 by simp
  finally have "\<lceil>z\<rceil> \<le> \<lceil>y\<rceil> - 1" by (rule ceiling_le)
  then have "nat \<lceil>z\<rceil> < nat \<lceil>y\<rceil>" using c2 by linarith
  then show ?case unfolding y_def z_def by simp
qed

declare flog.simps [simp del] cexp.simps [simp del]

definition ilog :: "nat \<Rightarrow> rat \<Rightarrow> int" where
  \<comment> \<open>the exponent \<open>e\<close> with \<open>b ^ e \<le> x < b ^ (e + 1)\<close>, for positive \<open>x\<close>\<close>
  "ilog b x = (if 1 \<le> x then int (flog b x) else - int (cexp b x))"

definition round_sig :: "nat \<Rightarrow> nat \<Rightarrow> rat \<Rightarrow> rat" where
  \<comment> \<open>round to \<open>p\<close> significant digits in base \<open>b\<close>, ties to even\<close>
  "round_sig b p x = (if x = 0 then 0 else
     let u = of_nat b powi (ilog b \<bar>x\<bar> - int p + 1) in of_int (rhe (x / u)) * u)"

definition fl :: "rat \<Rightarrow> pyfloat" where
  "fl = round_sig 2 53"

definition fadd :: "pyfloat \<Rightarrow> pyfloat \<Rightarrow> pyfloat" where
  "fadd x y = fl (x + y)"

definition fsub :: "pyfloat \<Rightarrow> pyfloat \<Rightarrow> pyfloat" where
  "fsub x y = fl (x - y)"

definition fmul :: "pyfloat \<Rightarrow> pyfloat \<Rightarrow> pyfloat" where
  "fmul x y = fl (x * y)"

definition fdiv :: "pyfloat \<Rightarrow> pyfloat \<Rightarrow> pyfloat" where
  \<comment> \<open>every division of the source has a nonzero divisor: a guard or a constant\<close>
  "fdiv x y = fl (x / y)"

definition py_round :: "pyfloat \<Rightarrow> nat \<Rightarrow> pyfloat" where
  \<comment> \<open>\<^verbatim>\<open>round(x, n)\<close>: the decimal expansion of the exact value, correctly rounded to
      \<open>n\<close> places (ties to even), read back as a float\<close>
  "py_round x n = fl (of_int (rhe (x * 10 ^ n)) / 10 ^ n)"

section \<open>Python strings and the parsers of \<^verbatim>\<open>int\<close> and \<^verbatim>\<open>Decimal\<close>\<close>

text \<open>
  Strings are ASCII character lists. \<^verbatim>\<open>str.lower\<close> maps \<^verbatim>\<open>A-Z\<close> to
  \<^verbatim>\<open>a-z\<close>. \<^verbatim>\<open>int(s)\<close> accepts surrounding whitespace, a sign and decimal digits
  that single underscores may separate. \<^verbatim>\<open>Decimal(s)\<close> accepts surrounding whitespace,
  ignores underscores and reads a sign, digits with an optional fraction and an optional
  exponent; the result \<open>None\<close> stands for the exception each of them raises. The special
  values \<^verbatim>\<open>Infinity\<close> and \<^verbatim>\<open>NaN\<close> that \<^verbatim>\<open>Decimal\<close> also reads have no
  counterpart among the rationals and are not part of the modelled input domain.
\<close>

definition lower_char :: "char \<Rightarrow> char" where
  "lower_char c = (let n = (of_char c :: nat) in
     if 65 \<le> n \<and> n \<le> 90 then char_of (n + 32) else c)"

definition lower :: "string \<Rightarrow> string" where
  "lower s = map lower_char s"

definition is_digit :: "char \<Rightarrow> bool" where
  "is_digit c = (let n = (of_char c :: nat) in 48 \<le> n \<and> n \<le> 57)"

definition digit_val :: "char \<Rightarrow> int" where
  "digit_val c = (of_char c :: int) - 48"

definition digits_val :: "string \<Rightarrow> int" where
  "digits_val s = foldl (\<lambda>acc c. 10 * acc + digit_val c) 0 s"

definition int_space :: "char \<Rightarrow> bool" where
  "int_space c = (let n = (of_char c :: nat) in (9 \<le> n \<and> n \<le> 13) \<or> n = 32)"

definition dec_space :: "char \<Rightarrow> bool" where
  "dec_space c = (let n = (of_char c :: nat) in (9 \<le> n \<and> n \<le> 13) \<or> (28 \<le> n \<and> n \<le> 32))"

definition strip :: "(char \<Rightarrow> bool) \<Rightarrow> string \<Rightarrow> string" where
  "strip sp s = rev (dropWhile sp (rev (dropWhile sp s)))"

fun split_sign :: "string \<Rightarrow> bool \<times> string" where
  "split_sign [] = (False, [])"
| "split_sign (c # cs) =
     (if c = CHR ''-'' then (True, cs) else if c = CHR ''+'' then (False, cs) else (False, c # cs))"

fun underscores_ok :: "string \<Rightarrow> bool" where
  \<comment> \<open>every underscore stands between two digits\<close>
  "underscores_ok [] = True"
| "underscores_ok [c] = is_digit c"
| "underscores_ok (c # d # cs) =
     (is_digit c \<and> (if d = CHR ''_'' then cs \<noteq> [] \<and> underscores_ok cs else underscores_ok (d # cs)))"

definition py_int :: "string \<Rightarrow> int option" where
  "py_int s = (let (neg, r) = split_sign (strip int_space s) in
     if r = [] \<or> \<not> underscores_ok r then None
     else let n = digits_val (filter (\<lambda>c. c \<noteq> CHR ''_'') r) in
       Some (if neg then - n else n))"

definition is_exp_mark :: "char \<Rightarrow> bool" where
  "is_exp_mark c = (c = CHR ''e'' \<or> c = CHR ''E'')"

definition parse_exponent :: "string \<Rightarrow> int option" where
  \<comment> \<open>what follows the digits of a Decimal literal: nothing, or an exponent\<close>
  "parse_exponent s = (case s of
       [] \<Rightarrow> Some 0
     | c # cs \<Rightarrow>
         if is_exp_mark c then
           (let (neg, ds) = split_sign cs in
            if ds = [] \<or> \<not> list_all is_digit ds then None
            else Some (if neg then - digits_val ds else digits_val ds))
         else None)"

definition decimal_of_string :: "string \<Rightarrow> rat option" where
  "decimal_of_string s =
     (let (neg, r) = split_sign (filter (\<lambda>c. c \<noteq> CHR ''_'') (strip dec_space s));
          ip = takeWhile is_digit r;
          r1 = dropWhile is_digit r;
          (fp, r2) = (case r1 of
                        [] \<Rightarrow> ([], [])
                      | c # cs \<Rightarrow> if c = CHR ''.'' then (takeWhile is_digit cs, dropWhile is_digit cs)
                                  else ([], c # cs))
      in if ip = [] \<and> fp = [] then None
         else case parse_exponent r2 of
                None \<Rightarrow> None
              | Some e \<Rightarrow>
                  let v = of_int (digits_val (ip @ fp)) * 10 powi (e - int (length fp))
                  in Some (if neg then - v else v))"

section \<open>behavior.py\<close>

datatype error = AttributeError | KeyError | ValueError

text \<open>
  A transfer record is an Etherscan-style dictionary; \<^verbatim>\<open>tx.get(k)\<close> is \<open>None\<close> for a
  missing key and a string otherwise.
\<close>

record tx =
  tx_from :: "string option"
  tx_to :: "string option"
  tx_value :: "string option"
  tx_timeStamp :: "string option"

definition or_str :: "string option \<Rightarrow> string \<Rightarrow> string" where
  \<comment> \<open>\<^verbatim>\<open>x or d\<close>: \<open>None\<close> and the empty string are false\<close>
  "or_str x d = (case x of None \<Rightarrow> d | Some s \<Rightarrow> if s = [] then d else s)"

definition WEI_PER_ETH :: rat where
  "WEI_PER_ETH = 10 ^ 18"

definition decimal_div :: "rat \<Rightarrow> rat \<Rightarrow> rat" where
  \<comment> \<open>division of two \<^verbatim>\<open>Decimal\<close>s in the default context: 28 significant digits,
      ROUND_HALF_EVEN\<close>
  "decimal_div x y = round_sig 10 28 (x / y)"

definition wei_to_eth :: "string \<Rightarrow> error + pyfloat" where
  \<comment> \<open>\<^verbatim>\<open>Decimal(wei_str)\<close> raises \<^verbatim>\<open>decimal.InvalidOperation\<close> on text that is no
      number. The handler is \<^verbatim>\<open>except (TypeError, ValueError, Decimal.InvalidOperation)\<close>: to
      match the exception Python evaluates this tuple, and the class \<^verbatim>\<open>Decimal\<close> has no
      attribute \<^verbatim>\<open>InvalidOperation\<close> (the exception lives in the module
      \<^verbatim>\<open>decimal\<close>), so the lookup raises \<^verbatim>\<open>AttributeError\<close> and
      \<^verbatim>\<open>return 0.0\<close> is never reached.\<close>
  "wei_to_eth wei_str = (case decimal_of_string wei_str of
       None \<Rightarrow> Inl AttributeError
     | Some d \<Rightarrow> Inr (fl (decimal_div d WEI_PER_ETH)))"

record analyze_state =
  total_in_eth_acc :: pyfloat
  total_out_eth_acc :: pyfloat
  counterparties :: "string set"
  large_transfers :: nat
  timestamps :: "int list"

definition add_nonempty :: "string \<Rightarrow> string set \<Rightarrow> string set" where
  \<comment> \<open>\<^verbatim>\<open>if a: counterparties.add(a)\<close>\<close>
  "add_nonempty a S = (if a \<noteq> [] then insert a S else S)"

definition analyze_step :: "string \<Rightarrow> tx \<Rightarrow> analyze_state \<Rightarrow> error + analyze_state" where
  "analyze_step wallet_address t s =
     (let from_addr = lower (or_str (tx_from t) []);
          to_addr = lower (or_str (tx_to t) []);
          value_wei = or_str (tx_value t) ''0''
      in case wei_to_eth value_wei of
           Inl e \<Rightarrow> Inl e
         | Inr value_eth \<Rightarrow>
             let s1 = (case tx_timeStamp t of
                         None \<Rightarrow> s
                       | Some ts \<Rightarrow>
                           if ts = [] then s
                           else (case py_int ts of
                                   None \<Rightarrow> s
                                 | Some n \<Rightarrow> s\<lparr>timestamps := timestamps s @ [n]\<rparr>));
                 s2 = (if wallet_address \<noteq> [] then
                         (let addr_lower = lower wallet_address;
                              s_out = (if from_addr = addr_lower
                                       then s1\<lparr>total_out_eth_acc := fadd (total_out_eth_acc s1) value_eth,
                                               counterparties := add_nonempty to_addr (counterparties s1)\<rparr>
                                       else s1)
                          in if to_addr = addr_lower
                             then s_out\<lparr>total_in_eth_acc := fadd (total_in_eth_acc s_out) value_eth,
                                        counterparties := add_nonempty from_addr (counterparties s_out)\<rparr>
                             else s_out)
                       else s1\<lparr>total_out_eth_acc := fadd (total_out_eth_acc s1) value_eth,
                                counterparties :=
                                  add_nonempty to_addr (add_nonempty from_addr (counterparties s1))\<rparr>)
             in Inr (if fl 10 \<le> value_eth then s2\<lparr>large_transfers := large_transfers s2 + 1\<rparr> else s2))"

fun analyze_loop :: "string \<Rightarrow> tx list \<Rightarrow> analyze_state \<Rightarrow> error + analyze_state" where
  "analyze_loop wallet_address [] s = Inr s"
| "analyze_loop wallet_address (t # ts) s =
     (case analyze_step wallet_address t s of
        Inl e \<Rightarrow> Inl e
      | Inr s' \<Rightarrow> analyze_loop wallet_address ts s')"

record base_metrics =
  base_total_txs :: nat
  base_total_in_eth :: pyfloat
  base_total_out_eth :: pyfloat
  base_unique_counterparties :: nat
  base_first_seen :: "int option"
  base_last_seen :: "int option"
  base_large_transfers_count :: nat

definition analyze_init :: analyze_state where
  "analyze_init = \<lparr>total_in_eth_acc = 0, total_out_eth_acc = 0, counterparties = {},
                   large_transfers = 0, timestamps = []\<rparr>"

definition analyze_transactions :: "tx list \<Rightarrow> string \<Rightarrow> error + base_metrics" where
  \<comment> \<open>the default \<^verbatim>\<open>wallet_address=None\<close> behaves like the empty string: both are false\<close>
  "analyze_transactions transactions wallet_address =
     (case analyze_loop wallet_address transactions analyze_init of
        Inl e \<Rightarrow> Inl e
      | Inr s \<Rightarrow> Inr
          \<lparr>base_total_txs = length transactions,
           base_total_in_eth = py_round (total_in_eth_acc s) 4,
           base_total_out_eth = py_round (total_out_eth_acc s) 4,
           base_unique_counterparties = card (counterparties s),
           base_first_seen = (if timestamps s = [] then None else Some (Min (set (timestamps s)))),
           base_last_seen = (if timestamps s = [] then None else Some (Max (set (timestamps s)))),
           base_large_transfers_count = large_transfers s\<rparr>)"

section \<open>intelligence.py: constants\<close>

definition VERDICT_SMART_MONEY_ACCUMULATION :: string where
  "VERDICT_SMART_MONEY_ACCUMULATION = ''SMART_MONEY_ACCUMULATION''"

definition VERDICT_STEALTH_DISTRIBUTION :: string where
  "VERDICT_STEALTH_DISTRIBUTION = ''STEALTH_DISTRIBUTION''"

definition VERDICT_EXCHANGE_ROTATION :: string where
  "VERDICT_EXCHANGE_ROTATION = ''EXCHANGE_ROTATION''"

definition VERDICT_WHALE_DORMANT :: string where
  "VERDICT_WHALE_DORMANT = ''WHALE_DORMANT''"

definition VERDICT_NEUTRAL :: string where
  "VERDICT_NEUTRAL = ''NEUTRAL''"

definition ENTITY_WHALE :: string where
  "ENTITY_WHALE = ''likely_individual_whale''"

definition ENTITY_DISTRIBUTOR :: string where
  "ENTITY_DISTRIBUTOR = ''likely_distributor''"

definition ENTITY_ROUTER :: string where
  "ENTITY_ROUTER = ''likely_exchange_rotator''"

definition ENTITY_DORMANT_WHALE :: string where
  "ENTITY_DORMANT_WHALE = ''likely_dormant_whale''"

definition ENTITY_UNKNOWN :: string where
  "ENTITY_UNKNOWN = ''unknown''"

text \<open>A float literal of the source denotes the binary64 number nearest to it.\<close>

definition INFLOW_OUTFLOW_RATIO_ACCUM :: pyfloat where
  "INFLOW_OUTFLOW_RATIO_ACCUM = fl (15 / 10)"

definition OUTFLOW_INFLOW_RATIO_DIST :: pyfloat where
  "OUTFLOW_INFLOW_RATIO_DIST = fl (15 / 10)"

definition NET_INFLOW_MIN_ETH :: pyfloat where
  "NET_INFLOW_MIN_ETH = fl 50"

definition NET_OUTFLOW_MIN_ETH :: pyfloat where
  "NET_OUTFLOW_MIN_ETH = fl 50"

definition TX_FREQ_HIGH_TXS_PER_DAY :: pyfloat where
  "TX_FREQ_HIGH_TXS_PER_DAY = fl (5 / 10)"

definition TX_FREQ_MIN_DAYS :: pyfloat where
  "TX_FREQ_MIN_DAYS = fl 1"

definition COUNTERPARTIES_MANY :: nat where
  "COUNTERPARTIES_MANY = 15"

definition COUNTERPARTIES_FEW :: nat where
  "COUNTERPARTIES_FEW = 10"

definition LARGE_TRANSFER_ETH :: pyfloat where
  "LARGE_TRANSFER_ETH = fl 10"

definition SPIKE_ETH :: pyfloat where
  "SPIKE_ETH = fl 25"

definition LARGE_TRANSFERS_MIN_COUNT :: nat where
  "LARGE_TRANSFERS_MIN_COUNT = 2"

definition WHALE_HISTORICAL_ETH :: pyfloat where
  "WHALE_HISTORICAL_ETH = fl 200"

definition RECENCY_DAYS :: int where
  "RECENCY_DAYS = 30"

definition RECENCY_MAX_TXS_DORMANT :: nat where
  "RECENCY_MAX_TXS_DORMANT = 3"

definition RECENCY_MIN_HISTORICAL_TXS :: nat where
  "RECENCY_MIN_HISTORICAL_TXS = 10"

definition RECENCY_SPAN_DAYS_WHALE :: int where
  "RECENCY_SPAN_DAYS_WHALE = 60"

definition EXCHANGE_ROTATION_MIN_TXS :: nat where
  "EXCHANGE_ROTATION_MIN_TXS = 30"

definition TIMING_MIN_TXS_FOR_PATTERN :: nat where
  "TIMING_MIN_TXS_FOR_PATTERN = 5"

section \<open>intelligence.py: the metrics pass\<close>

definition seconds_to_days :: "int \<Rightarrow> pyfloat" where
  "seconds_to_days seconds = (if seconds \<noteq> 0 then fl (of_int seconds / of_int (24 * 3600)) else 0)"

record metrics =
  total_in_eth :: pyfloat
  total_out_eth :: pyfloat
  net_eth :: pyfloat
  inflow_outflow_ratio :: "pyfloat option"
  outflow_inflow_ratio :: "pyfloat option"
  total_txs :: nat
  span_days :: pyfloat
  tx_frequency :: pyfloat
  unique_counterparties :: nat
  large_transfers_count :: nat
  spike_count :: nat
  spike_total_eth :: pyfloat
  recent_tx_count :: nat
  first_seen :: "int option"
  last_seen :: "int option"
  staggered_exits :: bool
  repeated_timing :: bool
  total_flow_eth :: pyfloat
  historically_large :: bool
  dormant_candidate :: bool
  num_inflows :: nat
  num_outflows :: nat

record scan_state =
  recent_tx_count_acc :: nat
  spike_count_acc :: nat
  spike_total_eth_acc :: pyfloat
  in_values :: "pyfloat list"
  out_values :: "pyfloat list"
  tx_timestamps :: "int list"

definition scan_init :: scan_state where
  "scan_init = \<lparr>recent_tx_count_acc = 0, spike_count_acc = 0, spike_total_eth_acc = 0,
                in_values = [], out_values = [], tx_timestamps = []\<rparr>"

definition scan_step :: "string \<Rightarrow> int \<Rightarrow> tx \<Rightarrow> scan_state \<Rightarrow> error + scan_state" where
  \<comment> \<open>the body of the loop of \<^verbatim>\<open>_compute_intelligence_metrics\<close>\<close>
  "scan_step wallet_lower recent_cutoff_ts t s =
     (let from_addr = lower (or_str (tx_from t) []);
          to_addr = lower (or_str (tx_to t) [])
      in case wei_to_eth (or_str (tx_value t) ''0'') of
           Inl e \<Rightarrow> Inl e
         | Inr value_eth \<Rightarrow>
             let ts_int = (case tx_timeStamp t of None \<Rightarrow> None | Some ts \<Rightarrow> py_int ts);
                 s1 = (case ts_int of
                         None \<Rightarrow> s
                       | Some n \<Rightarrow>
                           let s' = s\<lparr>tx_timestamps := tx_timestamps s @ [n]\<rparr>
                           in if recent_cutoff_ts \<le> n
                              then s'\<lparr>recent_tx_count_acc := recent_tx_count_acc s' + 1\<rparr> else s');
                 s2 = (if SPIKE_ETH \<le> value_eth
                       then s1\<lparr>spike_count_acc := spike_count_acc s1 + 1,
                               spike_total_eth_acc := fadd (spike_total_eth_acc s1) value_eth\<rparr>
                       else s1)
             in Inr (if wallet_lower \<noteq> [] then
                       (let s3 = (if from_addr = wallet_lower
                                  then s2\<lparr>out_values := out_values s2 @ [value_eth]\<rparr> else s2)
                        in if to_addr = wallet_lower
                           then s3\<lparr>in_values := in_values s3 @ [value_eth]\<rparr> else s3)
                     else s2))"

fun scan_loop :: "string \<Rightarrow> int \<Rightarrow> tx list \<Rightarrow> scan_state \<Rightarrow> error + scan_state" where
  "scan_loop wallet_lower recent_cutoff_ts [] s = Inr s"
| "scan_loop wallet_lower recent_cutoff_ts (t # ts) s =
     (case scan_step wallet_lower recent_cutoff_ts t s of
        Inl e \<Rightarrow> Inl e
      | Inr s' \<Rightarrow> scan_loop wallet_lower recent_cutoff_ts ts s')"

fun bump :: "int \<Rightarrow> (int \<times> nat) list \<Rightarrow> (int \<times> nat) list" where
  \<comment> \<open>\<^verbatim>\<open>hour_counts[k] += 1\<close> on a \<^verbatim>\<open>defaultdict(int)\<close>\<close>
  "bump k [] = [(k, 1)]"
| "bump k ((k', c) # r) = (if k = k' then (k', c + 1) # r else (k', c) # bump k r)"

definition hour_counts :: "int list \<Rightarrow> (int \<times> nat) list" where
  "hour_counts tss = foldl (\<lambda>hc ts. bump ((ts div 3600) mod 24) hc) [] tss"

definition or_zero :: "pyfloat option \<Rightarrow> pyfloat" where
  \<comment> \<open>\<^verbatim>\<open>x or 0\<close>\<close>
  "or_zero x = (case x of None \<Rightarrow> 0 | Some r \<Rightarrow> r)"

definition compute_intelligence_metrics :: "tx list \<Rightarrow> string \<Rightarrow> error + metrics" where
  "compute_intelligence_metrics transactions wallet_address =
     (case analyze_transactions transactions wallet_address of
        Inl e \<Rightarrow> Inl e
      | Inr base \<Rightarrow>
         let wallet_lower = lower wallet_address;
             total_in = base_total_in_eth base;
             total_out = base_total_out_eth base;
             net = fsub total_in total_out;
             n_txs = base_total_txs base;
             first_ts = base_first_seen base;
             last_ts = base_last_seen base;
             span_seconds = (case (first_ts, last_ts) of
                               (Some f, Some l) \<Rightarrow> if f \<noteq> 0 \<and> l \<noteq> 0 then l - f else 0
                             | _ \<Rightarrow> 0);
             span = seconds_to_days span_seconds;
             freq = (if TX_FREQ_MIN_DAYS \<le> span then fdiv (fl (of_nat n_txs)) span else 0);
             now_ts = (case last_ts of None \<Rightarrow> 0 | Some l \<Rightarrow> l);
             recent_cutoff_ts = (if now_ts \<noteq> 0 then now_ts - RECENCY_DAYS * 24 * 3600 else 0);
             in_out_ratio = (if 0 < total_out then fdiv total_in total_out
                             else if total_in \<noteq> 0 then fmul total_in (fl 10) else 0);
             out_in_ratio = (if 0 < total_in then fdiv total_out total_in
                             else if total_out \<noteq> 0 then fmul total_out (fl 10) else 0)
         in case scan_loop wallet_lower recent_cutoff_ts transactions scan_init of
              Inl e \<Rightarrow> Inl e
            | Inr s \<Rightarrow>
               let out_values_sorted = sort (out_values s);
                   median_out = (if out_values_sorted \<noteq> []
                                 then out_values_sorted ! (length out_values_sorted div 2) else 0);
                   staggered = (5 \<le> length (out_values s) \<and> median_out < LARGE_TRANSFER_ETH
                                \<and> NET_OUTFLOW_MIN_ETH < total_out);
                   hc = hour_counts (tx_timestamps s);
                   max_same_hour = (if hc \<noteq> [] then Max (set (map snd hc)) else 0);
                   repeated = (TIMING_MIN_TXS_FOR_PATTERN \<le> max_same_hour);
                   total_flow = fadd total_in total_out;
                   hist_large = (WHALE_HISTORICAL_ETH \<le> total_flow);
                   dormant = (RECENCY_MIN_HISTORICAL_TXS \<le> n_txs
                              \<and> recent_tx_count_acc s \<le> RECENCY_MAX_TXS_DORMANT \<and> hist_large)
               in Inr
                 \<lparr>total_in_eth = total_in,
                  total_out_eth = total_out,
                  net_eth = net,
                  inflow_outflow_ratio = (if 0 < total_out then Some (py_round in_out_ratio 4) else None),
                  outflow_inflow_ratio = (if 0 < total_in then Some (py_round out_in_ratio 4) else None),
                  total_txs = n_txs,
                  span_days = py_round span 2,
                  tx_frequency = (if freq \<noteq> 0 then py_round freq 4 else 0),
                  unique_counterparties = base_unique_counterparties base,
                  large_transfers_count = base_large_transfers_count base,
                  spike_count = spike_count_acc s,
                  spike_total_eth = py_round (spike_total_eth_acc s) 4,
                  recent_tx_count = recent_tx_count_acc s,
                  first_seen = first_ts,
                  last_seen = last_ts,
                  staggered_exits = staggered,
                  repeated_timing = repeated,
                  total_flow_eth = py_round total_flow 4,
                  historically_large = hist_large,
                  dormant_candidate = dormant,
                  num_inflows = length (in_values s),
                  num_outflows = length (out_values s)\<rparr>)"

section \<open>intelligence.py: scoring rules\<close>

type_synonym signal = "pyfloat \<times> (metrics \<Rightarrow> bool)"

definition score_signals :: "metrics \<Rightarrow> signal list \<Rightarrow> pyfloat" where
  \<comment> \<open>\<^verbatim>\<open>sum(w for w, pred in signals if pred(metrics))\<close>: the weights are added from left
      to right, starting from 0\<close>
  "score_signals m signals = foldl fadd 0 (map fst (filter (\<lambda>(w, pred). pred m) signals))"

definition max_score :: "signal list \<Rightarrow> pyfloat" where
  \<comment> \<open>\<^verbatim>\<open>sum(w for w, _ in signals)\<close>\<close>
  "max_score signals = foldl fadd 0 (map fst signals)"

definition SIGNALS_ACCUMULATION :: "signal list" where
  "SIGNALS_ACCUMULATION =
     [(fl (30 / 100), \<lambda>m. INFLOW_OUTFLOW_RATIO_ACCUM \<le> or_zero (inflow_outflow_ratio m)),
      (fl (25 / 100), \<lambda>m. NET_INFLOW_MIN_ETH \<le> net_eth m),
      (fl (20 / 100), \<lambda>m. 3 \<le> num_inflows m \<and> NET_INFLOW_MIN_ETH \<le> total_in_eth m),
      (fl (15 / 100), \<lambda>m. unique_counterparties m \<le> COUNTERPARTIES_FEW \<and> LARGE_TRANSFER_ETH \<le> total_in_eth m),
      (fl (10 / 100), \<lambda>m. LARGE_TRANSFERS_MIN_COUNT \<le> large_transfers_count m)]"

definition MAX_SCORE_ACCUMULATION :: pyfloat where
  "MAX_SCORE_ACCUMULATION = max_score SIGNALS_ACCUMULATION"

definition SIGNALS_DISTRIBUTION :: "signal list" where
  "SIGNALS_DISTRIBUTION =
     [(fl (30 / 100), \<lambda>m. OUTFLOW_INFLOW_RATIO_DIST \<le> or_zero (outflow_inflow_ratio m)),
      (fl (25 / 100), \<lambda>m. net_eth m \<le> - NET_OUTFLOW_MIN_ETH),
      (fl (20 / 100), \<lambda>m. staggered_exits m),
      (fl (15 / 100), \<lambda>m. 5 \<le> num_outflows m),
      (fl (10 / 100), \<lambda>m. 1 \<le> spike_count m \<and> total_in_eth m < total_out_eth m)]"

definition MAX_SCORE_DISTRIBUTION :: pyfloat where
  "MAX_SCORE_DISTRIBUTION = max_score SIGNALS_DISTRIBUTION"

definition SIGNALS_EXCHANGE_ROTATION :: "signal list" where
  "SIGNALS_EXCHANGE_ROTATION =
     [(fl (35 / 100), \<lambda>m. COUNTERPARTIES_MANY \<le> unique_counterparties m),
      (fl (30 / 100), \<lambda>m. TX_FREQ_HIGH_TXS_PER_DAY \<le> tx_frequency m \<or> EXCHANGE_ROTATION_MIN_TXS \<le> total_txs m),
      (fl (20 / 100), \<lambda>m. WHALE_HISTORICAL_ETH \<le> total_flow_eth m),
      (fl (15 / 100), \<lambda>m. repeated_timing m)]"

definition MAX_SCORE_EXCHANGE_ROTATION :: pyfloat where
  "MAX_SCORE_EXCHANGE_ROTATION = max_score SIGNALS_EXCHANGE_ROTATION"

definition SIGNALS_WHALE_DORMANT :: "signal list" where
  "SIGNALS_WHALE_DORMANT =
     [(fl (45 / 100), \<lambda>m. dormant_candidate m),
      (fl (30 / 100), \<lambda>m. recent_tx_count m \<le> RECENCY_MAX_TXS_DORMANT \<and> historically_large m),
      (fl (25 / 100), \<lambda>m. of_int RECENCY_SPAN_DAYS_WHALE \<le> span_days m \<and> recent_tx_count m \<le> 2)]"

definition MAX_SCORE_WHALE_DORMANT :: pyfloat where
  "MAX_SCORE_WHALE_DORMANT = max_score SIGNALS_WHALE_DORMANT"

type_synonym scores = "(string \<times> pyfloat) list"

definition normalized :: "metrics \<Rightarrow> signal list \<Rightarrow> pyfloat \<Rightarrow> pyfloat" where
  \<comment> \<open>one entry of \<^verbatim>\<open>_compute_all_scores\<close>: \<^verbatim>\<open>min(1.0, round(score / MAX, 4))\<close>\<close>
  "normalized m signals mx = min (fl 1) (py_round (fdiv (score_signals m signals) mx) 4)"

definition compute_all_scores :: "metrics \<Rightarrow> scores" where
  \<comment> \<open>a Python dict keeps its keys in insertion order\<close>
  "compute_all_scores m =
     [(VERDICT_SMART_MONEY_ACCUMULATION, normalized m SIGNALS_ACCUMULATION MAX_SCORE_ACCUMULATION),
      (VERDICT_STEALTH_DISTRIBUTION, normalized m SIGNALS_DISTRIBUTION MAX_SCORE_DISTRIBUTION),
      (VERDICT_EXCHANGE_ROTATION, normalized m SIGNALS_EXCHANGE_ROTATION MAX_SCORE_EXCHANGE_ROTATION),
      (VERDICT_WHALE_DORMANT, normalized m SIGNALS_WHALE_DORMANT MAX_SCORE_WHALE_DORMANT)]"

section \<open>intelligence.py: confidence and verdict\<close>

definition CONFIDENCE_MIN :: pyfloat where
  "CONFIDENCE_MIN = fl (30 / 100)"

definition CONFIDENCE_MAX :: pyfloat where
  "CONFIDENCE_MAX = fl (95 / 100)"

definition CONFIDENCE_STRENGTH_WEIGHT :: pyfloat where
  "CONFIDENCE_STRENGTH_WEIGHT = fl (50 / 100)"

definition CONFIDENCE_MARGIN_WEIGHT :: pyfloat where
  "CONFIDENCE_MARGIN_WEIGHT = fl (35 / 100)"

definition CONFIDENCE_DATA_WEIGHT :: pyfloat where
  "CONFIDENCE_DATA_WEIGHT = fl (15 / 100)"

definition DATA_QUALITY_TXS_FLOOR :: nat where
  "DATA_QUALITY_TXS_FLOOR = 10"

definition DATA_QUALITY_TXS_CEILING :: nat where
  "DATA_QUALITY_TXS_CEILING = 80"

definition lookup :: "(string \<times> 'a) list \<Rightarrow> string \<Rightarrow> error + 'a" where
  \<comment> \<open>\<^verbatim>\<open>d[k]\<close>\<close>
  "lookup d k = (case map_of d k of None \<Rightarrow> Inl KeyError | Some v \<Rightarrow> Inr v)"

definition data_quality :: "nat \<Rightarrow> pyfloat" where
  \<comment> \<open>the \<^verbatim>\<open>data_quality\<close> of \<^verbatim>\<open>_compute_confidence\<close>; an \<^verbatim>\<open>int / int\<close> is the
      correctly rounded quotient\<close>
  "data_quality txs =
     (if txs \<le> DATA_QUALITY_TXS_FLOOR then fl (of_nat txs / of_nat DATA_QUALITY_TXS_FLOOR)
      else min (fl 1) (fl (of_int (int txs - int DATA_QUALITY_TXS_FLOOR)
                           / of_int (int DATA_QUALITY_TXS_CEILING - int DATA_QUALITY_TXS_FLOOR))))"

definition compute_confidence :: "string \<Rightarrow> scores \<Rightarrow> metrics \<Rightarrow> bool \<Rightarrow> error + pyfloat" where
  "compute_confidence best_verdict scores m neutral_fallback =
     (if neutral_fallback then Inr (py_round (fadd CONFIDENCE_MIN (fl (15 / 100))) 2)
      else case lookup scores best_verdict of
             Inl e \<Rightarrow> Inl e
           | Inr strength \<Rightarrow>
               let ordered = sort_key (\<lambda>x. - snd x) scores;
                   second_score = (if 1 < length ordered then snd (ordered ! 1) else 0);
                   margin = min (fl 1) (max 0 (fsub strength second_score));
                   confidence =
                     fadd CONFIDENCE_MIN
                       (fmul (fsub CONFIDENCE_MAX CONFIDENCE_MIN)
                          (fadd (fadd (fmul CONFIDENCE_STRENGTH_WEIGHT strength)
                                      (fmul CONFIDENCE_MARGIN_WEIGHT margin))
                                (fmul CONFIDENCE_DATA_WEIGHT (data_quality (total_txs m)))))
               in Inr (py_round (min CONFIDENCE_MAX (max CONFIDENCE_MIN confidence)) 2))"

fun argmax_loop :: "string \<times> pyfloat \<Rightarrow> scores \<Rightarrow> string" where
  "argmax_loop best [] = fst best"
| "argmax_loop best (kv # r) = (if snd best < snd kv then argmax_loop kv r else argmax_loop best r)"

definition max_key :: "scores \<Rightarrow> error + string" where
  \<comment> \<open>\<^verbatim>\<open>max(scores, key=scores.get)\<close>: the first key, in dict order, whose value is maximal\<close>
  "max_key sc = (case sc of [] \<Rightarrow> Inl ValueError | kv # r \<Rightarrow> Inr (argmax_loop kv r))"

text \<open>
  The summary is an f-string of the verdict's template; the model keeps the template and
  the values it interpolates.
\<close>

datatype summary =
    NoTransactionData
  | NetInflowDominance pyfloat nat
  | SustainedOutflows pyfloat
  | HighCounterpartyCount nat nat
  | HistoricallyLargeFlow pyfloat nat
  | NoStrongBehavior

definition behavior_summary_of :: "string \<Rightarrow> metrics \<Rightarrow> pyfloat \<Rightarrow> summary" where
  "behavior_summary_of verdict m score =
     (if verdict = VERDICT_SMART_MONEY_ACCUMULATION then NetInflowDominance (net_eth m) (unique_counterparties m)
      else if verdict = VERDICT_STEALTH_DISTRIBUTION then SustainedOutflows (net_eth m)
      else if verdict = VERDICT_EXCHANGE_ROTATION then HighCounterpartyCount (unique_counterparties m) (total_txs m)
      else if verdict = VERDICT_WHALE_DORMANT then HistoricallyLargeFlow (total_flow_eth m) (recent_tx_count m)
      else NoStrongBehavior)"

definition entity_map :: "(string \<times> string) list" where
  "entity_map =
     [(VERDICT_SMART_MONEY_ACCUMULATION, ENTITY_WHALE),
      (VERDICT_STEALTH_DISTRIBUTION, ENTITY_DISTRIBUTOR),
      (VERDICT_EXCHANGE_ROTATION, ENTITY_ROUTER),
      (VERDICT_WHALE_DORMANT, ENTITY_DORMANT_WHALE),
      (VERDICT_NEUTRAL, ENTITY_UNKNOWN)]"

definition pick_verdict_and_confidence :: "metrics \<Rightarrow> error + string \<times> string \<times> pyfloat \<times> summary" where
  "pick_verdict_and_confidence m =
     (let scores = compute_all_scores m in
      case max_key scores of
        Inl e \<Rightarrow> Inl e
      | Inr best0 \<Rightarrow>
         (case lookup scores best0 of
            Inl e \<Rightarrow> Inl e
          | Inr best_score \<Rightarrow>
             let neutral_fallback = (best_score < fl (30 / 100));
                 best_verdict = (if neutral_fallback then VERDICT_NEUTRAL else best0)
             in case lookup entity_map best_verdict of
                  Inl e \<Rightarrow> Inl e
                | Inr entity_inference \<Rightarrow>
                   (case compute_confidence best_verdict scores m neutral_fallback of
                      Inl e \<Rightarrow> Inl e
                    | Inr confidence \<Rightarrow>
                        Inr (best_verdict, entity_inference, confidence,
                             behavior_summary_of best_verdict m best_score))))"

datatype metrics_out = Key_absent | None_value | Empty_dict | Metrics metrics

record result =
  address :: string
  verdict :: string
  confidence :: pyfloat
  entity_inference :: string
  entity_type :: string
  behavior_summary :: summary
  metrics_used :: metrics_out

definition round_floats :: "metrics \<Rightarrow> metrics" where
  \<comment> \<open>\<^verbatim>\<open>round(v, 4) if isinstance(v, float) else v\<close>, over the values of the dict\<close>
  "round_floats m =
     m\<lparr>total_in_eth := py_round (total_in_eth m) 4,
       total_out_eth := py_round (total_out_eth m) 4,
       net_eth := py_round (net_eth m) 4,
       inflow_outflow_ratio := map_option (\<lambda>v. py_round v 4) (inflow_outflow_ratio m),
       outflow_inflow_ratio := map_option (\<lambda>v. py_round v 4) (outflow_inflow_ratio m),
       span_days := py_round (span_days m) 4,
       tx_frequency := py_round (tx_frequency m) 4,
       spike_total_eth := py_round (spike_total_eth m) 4,
       total_flow_eth := py_round (total_flow_eth m) 4\<rparr>"

definition classify_wallet :: "tx list \<Rightarrow> string \<Rightarrow> bool \<Rightarrow> error + result" where
  "classify_wallet transactions wallet_address include_metrics =
     (if transactions = [] then
        Inr \<lparr>address = wallet_address,
             verdict = VERDICT_NEUTRAL,
             confidence = fl (30 / 100),
             entity_inference = ENTITY_UNKNOWN,
             entity_type = ENTITY_UNKNOWN,
             behavior_summary = NoTransactionData,
             metrics_used = (if include_metrics then Empty_dict else None_value)\<rparr>
      else case compute_intelligence_metrics transactions wallet_address of
             Inl e \<Rightarrow> Inl e
           | Inr m \<Rightarrow>
              (case pick_verdict_and_confidence m of
                 Inl e \<Rightarrow> Inl e
               | Inr (v, entity, conf, summ) \<Rightarrow>
                   Inr \<lparr>address = wallet_address,
                        verdict = v,
                        confidence = conf,
                        entity_inference = entity,
                        entity_type = entity,
                        behavior_summary = summ,
                        metrics_used = (if include_metrics then Metrics (round_floats m) else Key_absent)\<rparr>))"

section \<open>Auxiliary notions\<close>

text \<open>
  What one transfer record contributes, as the two loops read it: the lowered addresses, the
  value in ETH and the parsed timestamp. A record is \<open>value_ok\<close> when \<^verbatim>\<open>Decimal\<close>
  accepts its value field.
\<close>

definition from_addr_of :: "tx \<Rightarrow> string" where
  "from_addr_of t = lower (or_str (tx_from t) [])"

definition to_addr_of :: "tx \<Rightarrow> string" where
  "to_addr_of t = lower (or_str (tx_to t) [])"

definition value_ok :: "tx \<Rightarrow> bool" where
  "value_ok t = (decimal_of_string (or_str (tx_value t) ''0'') \<noteq> None)"

definition eth :: "tx \<Rightarrow> pyfloat" where
  "eth t = (case wei_to_eth (or_str (tx_value t) ''0'') of Inl e \<Rightarrow> 0 | Inr v \<Rightarrow> v)"

definition timestamp_of :: "tx \<Rightarrow> int option" where
  "timestamp_of t = (case tx_timeStamp t of None \<Rightarrow> None | Some ts \<Rightarrow> py_int ts)"

definition is_inbound :: "string \<Rightarrow> tx \<Rightarrow> bool" where
  "is_inbound wallet_address t = (wallet_address \<noteq> [] \<and> to_addr_of t = lower wallet_address)"

definition is_outbound :: "string \<Rightarrow> tx \<Rightarrow> bool" where
  "is_outbound wallet_address t = (wallet_address \<noteq> [] \<and> from_addr_of t = lower wallet_address)"

definition float_sum :: "pyfloat list \<Rightarrow> pyfloat" where
  \<comment> \<open>a running total \<^verbatim>\<open>acc += v\<close> that starts from \<^verbatim>\<open>0.0\<close>\<close>
  "float_sum vs = foldl fadd 0 vs"

definition set_total_in :: "metrics \<Rightarrow> pyfloat \<Rightarrow> metrics" where
  \<comment> \<open>the metrics bag with another inbound total, and with the net value and the
      inflow/outflow ratio derived from it as \<^verbatim>\<open>_compute_intelligence_metrics\<close> derives them\<close>
  "set_total_in m x =
     m\<lparr>total_in_eth := x,
       net_eth := fsub x (total_out_eth m),
       inflow_outflow_ratio :=
         (if 0 < total_out_eth m then Some (py_round (fdiv x (total_out_eth m)) 4) else None)\<rparr>"

section \<open>Properties of the float operations\<close>

subsection \<open>Rounding to the nearest integer\<close>

lemma rhe_spec:
  "\<bar>x - of_int (rhe x)\<bar> < 1/2 \<or> (\<bar>x - of_int (rhe x)\<bar> = 1/2 \<and> even (rhe x))"
proof -
  define f where "f = \<lfloor>x\<rfloor>"
  define d where "d = x - of_int f"
  have d: "0 \<le> d" "d < 1" unfolding d_def f_def by linarith+
  have r: "rhe x = (if d < 1/2 then f else if 1/2 < d then f + 1 else if even f then f else f + 1)"
    by (simp add: rhe_def Let_def f_def d_def)
  have x: "x = of_int f + d" by (simp add: d_def)
  consider "d < 1/2" | "1/2 < d" | "d = 1/2" "even f" | "d = 1/2" "odd f" by fastforce
  then show ?thesis
  proof cases
    case 1 then show ?thesis using d r x by simp
  next
    case 2 then show ?thesis using d r x by simp
  next
    case 3 then show ?thesis using d r x by simp
  next
    case 4 then show ?thesis using d r x by simp
  qed
qed

lemma rhe_unique:
  assumes "\<bar>x - of_int m\<bar> < 1/2 \<or> (\<bar>x - of_int m\<bar> = 1/2 \<and> even m)"
  shows "rhe x = m"
proof (rule ccontr)
  assume ne: "rhe x \<noteq> m"
  define r where "r = rhe x"
  have sr: "\<bar>x - of_int r\<bar> < 1/2 \<or> (\<bar>x - of_int r\<bar> = 1/2 \<and> even r)"
    unfolding r_def by (rule rhe_spec)
  have a1: "\<bar>x - of_int r\<bar> \<le> 1/2" using sr by auto
  have a2: "\<bar>x - of_int m\<bar> \<le> 1/2" using assms by auto
  have "\<bar>(of_int r :: rat) - of_int m\<bar> \<le> 1" using a1 a2 by linarith
  then have "(of_int \<bar>r - m\<bar> :: rat) \<le> 1" by simp
  then have "\<bar>r - m\<bar> \<le> 1" by (simp only: of_int_le_1_iff)
  with ne have eq1: "\<bar>r - m\<bar> = 1" unfolding r_def by linarith
  then have "(of_int \<bar>r - m\<bar> :: rat) = 1" by simp
  then have "\<bar>(of_int r :: rat) - of_int m\<bar> = 1" by simp
  then have "\<bar>x - of_int r\<bar> = 1/2" "\<bar>x - of_int m\<bar> = 1/2" using a1 a2 by linarith+
  then have "even r" "even m" using sr assms by auto
  then show False using eq1 by presburger
qed

lemma rhe_eqI:
  assumes "of_int m - 1/2 < x" "x < of_int m + 1/2"
  shows "rhe x = m"
  by (rule rhe_unique) (use assms in linarith)

lemma rhe_of_int [simp]: "rhe (of_int k) = k"
  by (rule rhe_unique) simp

lemma rhe_0 [simp]: "rhe 0 = 0"
  using rhe_of_int [of 0] by simp

lemma rhe_minus: "rhe (- x) = - rhe x"
  by (rule rhe_unique) (use rhe_spec [of x] in \<open>auto simp: abs_minus_commute\<close>)

lemma rhe_mono:
  assumes "x \<le> y"
  shows "rhe x \<le> rhe y"
proof (rule ccontr)
  assume "\<not> rhe x \<le> rhe y"
  then have lt: "rhe y + 1 \<le> rhe x" by simp
  have bx: "of_int (rhe x) - 1/2 \<le> x" using rhe_spec [of x] by linarith
  have by': "y \<le> of_int (rhe y) + 1/2" using rhe_spec [of y] by linarith
  have "(of_int (rhe y) :: rat) + 1 \<le> of_int (rhe x)" using lt by linarith
  then have "y \<le> x" using bx by' by linarith
  then have "x = y" using assms by simp
  then show False using lt by simp
qed

subsection \<open>The exponent\<close>

lemma flog_spec:
  "2 \<le> b \<Longrightarrow> 1 \<le> x \<Longrightarrow> of_nat b ^ flog b x \<le> x \<and> x < of_nat b ^ Suc (flog b x)"
proof (induction b x rule: flog.induct)
  case (1 b x)
  have bpos: "(0::rat) < of_nat b" using "1.prems" by simp
  show ?case
  proof (cases "x < of_nat b")
    case True
    then have "flog b x = 0" by (subst flog.simps) simp
    then show ?thesis using True "1.prems" by simp
  next
    case False
    then have s: "flog b x = Suc (flog b (x / of_nat b))"
      using "1.prems" by (subst flog.simps) simp
    have "1 \<le> x / of_nat b" using False bpos by (simp add: field_simps)
    then have ih: "of_nat b ^ flog b (x / of_nat b) \<le> x / of_nat b"
      "x / of_nat b < of_nat b ^ Suc (flog b (x / of_nat b))"
      using "1.IH" False "1.prems" by auto
    have "of_nat b ^ flog b (x / of_nat b) * of_nat b \<le> x"
      using ih(1) bpos by (simp add: field_simps)
    moreover have "x < of_nat b ^ Suc (flog b (x / of_nat b)) * of_nat b"
      using ih(2) bpos by (simp add: field_simps)
    ultimately show ?thesis unfolding s by (simp add: mult.commute)
  qed
qed

lemma cexp_spec:
  "2 \<le> b \<Longrightarrow> 0 < x \<Longrightarrow> x < 1 \<Longrightarrow>
     1 \<le> x * of_nat b ^ cexp b x \<and> x * of_nat b ^ cexp b x < of_nat b \<and> 0 < cexp b x"
proof (induction b x rule: cexp.induct)
  case (1 b x)
  have bpos: "(0::rat) < of_nat b" using "1.prems" by simp
  have s: "cexp b x = Suc (cexp b (x * of_nat b))"
    using "1.prems" by (subst cexp.simps) simp
  show ?case
  proof (cases "1 \<le> x * of_nat b")
    case True
    then have "cexp b (x * of_nat b) = 0" by (subst cexp.simps) simp
    then have "cexp b x = 1" using s by simp
    moreover have "x * of_nat b < of_nat b" using "1.prems" bpos by simp
    ultimately show ?thesis using True by simp
  next
    case False
    have "0 < x * of_nat b" using "1.prems" bpos by simp
    then have ih: "1 \<le> x * of_nat b * of_nat b ^ cexp b (x * of_nat b)"
      "x * of_nat b * of_nat b ^ cexp b (x * of_nat b) < of_nat b"
      using "1.IH" False "1.prems" by auto
    show ?thesis unfolding s using ih by (simp add: mult.assoc)
  qed
qed

lemma ilog_spec:
  assumes "2 \<le> b" "0 < x"
  shows "of_nat b powi ilog b x \<le> x" and "x < of_nat b powi (ilog b x + 1)"
proof -
  have bpos: "(0::rat) < of_nat b" using assms by simp
  have "of_nat b powi ilog b x \<le> x \<and> x < of_nat b powi (ilog b x + 1)"
  proof (cases "1 \<le> x")
    case True
    then have i: "ilog b x = int (flog b x)" by (simp add: ilog_def)
    have "int (flog b x) + 1 = int (Suc (flog b x))" by simp
    then show ?thesis
      using flog_spec [OF assms(1) True] unfolding i by (simp only: power_int_of_nat)
  next
    case False
    then have x1: "x < 1" by simp
    define k where "k = cexp b x"
    have i: "ilog b x = - int k" using False by (simp add: ilog_def k_def)
    have c: "1 \<le> x * of_nat b ^ k" "x * of_nat b ^ k < of_nat b" "0 < k"
      using cexp_spec [OF assms x1] by (simp_all add: k_def)
    obtain j where j: "k = Suc j" using c(3) by (cases k) auto
    have p1: "(of_nat b :: rat) powi (- int k) = 1 / of_nat b ^ k"
      by (simp add: power_int_minus_divide)
    have "- int k + 1 = - int j" using j by simp
    then have p2: "(of_nat b :: rat) powi (- int k + 1) = 1 / of_nat b ^ j"
      by (simp add: power_int_minus_divide)
    have bk: "(0::rat) < of_nat b ^ k" "(0::rat) < of_nat b ^ j" using bpos by simp_all
    have "1 / of_nat b ^ k \<le> x" using c(1) bk by (simp add: field_simps)
    moreover have "x * of_nat b ^ j < 1" using c(2) bpos unfolding j by (simp add: field_simps)
    then have "x < 1 / of_nat b ^ j" using bk by (simp add: field_simps)
    ultimately show ?thesis unfolding i p1 p2 by simp
  qed
  then show "of_nat b powi ilog b x \<le> x" and "x < of_nat b powi (ilog b x + 1)" by simp_all
qed

lemma ilog_unique:
  assumes "2 \<le> b" "of_nat b powi e \<le> x" "x < of_nat b powi (e + 1)"
  shows "ilog b x = e"
proof -
  have b1: "(1::rat) \<le> of_nat b" using assms(1) by simp
  then have bpos: "(0::rat) < of_nat b" by linarith
  have "(0::rat) < of_nat b powi e" using bpos by simp
  then have xpos: "0 < x" using assms(2) by linarith
  note sp = ilog_spec [OF assms(1) xpos]
  have "\<not> ilog b x < e"
  proof
    assume "ilog b x < e"
    then have "ilog b x + 1 \<le> e" by simp
    then have "(of_nat b :: rat) powi (ilog b x + 1) \<le> of_nat b powi e"
      using b1 by (rule power_int_increasing)
    then show False using sp(2) assms(2) by linarith
  qed
  moreover have "\<not> e < ilog b x"
  proof
    assume "e < ilog b x"
    then have "e + 1 \<le> ilog b x" by simp
    then have "(of_nat b :: rat) powi (e + 1) \<le> of_nat b powi ilog b x"
      using b1 by (rule power_int_increasing)
    then show False using sp(1) assms(3) by linarith
  qed
  ultimately show ?thesis by simp
qed

subsection \<open>Rounding to significant digits\<close>

lemma round_sig_0 [simp]: "round_sig b p 0 = 0"
  by (simp add: round_sig_def)

lemma round_sig_minus: "round_sig b p (- x) = - round_sig b p x"
  by (simp add: round_sig_def Let_def rhe_minus)

lemma round_sig_eqI:
  assumes "2 \<le> b" "of_nat b powi e \<le> \<bar>x\<bar>" "\<bar>x\<bar> < of_nat b powi (e + 1)"
    and "rhe (x / of_nat b powi (e - int p + 1)) = m"
  shows "round_sig b p x = of_int m * of_nat b powi (e - int p + 1)"
proof -
  have "(0::rat) < of_nat b powi e" using assms(1) by simp
  then have "x \<noteq> 0" using assms(2) by auto
  moreover have "ilog b \<bar>x\<bar> = e" using assms(1-3) by (rule ilog_unique)
  ultimately show ?thesis using assms(4) by (simp add: round_sig_def Let_def)
qed

lemma round_sig_range:
  assumes "2 \<le> b" "0 < p" "of_nat b powi e \<le> x" "x < of_nat b powi (e + 1)"
  shows "of_nat b powi e \<le> round_sig b p x" and "round_sig b p x \<le> of_nat b powi (e + 1)"
proof -
  define u :: rat where "u = of_nat b powi (e - int p + 1)"
  have bne: "(of_nat b :: rat) \<noteq> 0" using assms(1) by simp
  have upos: "0 < u" using assms(1) by (simp add: u_def)
  have "(0::rat) < of_nat b powi e" using assms(1) by simp
  then have xpos: "0 < x" using assms(3) by linarith
  then have ax: "\<bar>x\<bar> = x" by simp
  have rs: "round_sig b p x = of_int (rhe (x / u)) * u"
    using round_sig_eqI [of b e x p "rhe (x / u)"] assms ax by (simp add: u_def)
  obtain q where q: "p = Suc q" using assms(2) by (cases p) auto
  have lo: "of_nat b powi e = of_int (int b ^ q) * u"
  proof -
    have "e = int q + (e - int p + 1)" using q by simp
    then have "(of_nat b :: rat) powi e = of_nat b powi (int q) * of_nat b powi (e - int p + 1)"
      using bne by (metis power_int_add)
    then show ?thesis by (simp add: u_def)
  qed
  have hi: "of_nat b powi (e + 1) = of_int (int b ^ p) * u"
  proof -
    have "e + 1 = int p + (e - int p + 1)" by simp
    then have "(of_nat b :: rat) powi (e + 1) = of_nat b powi (int p) * of_nat b powi (e - int p + 1)"
      using bne by (metis power_int_add)
    then show ?thesis by (simp add: u_def)
  qed
  define K where "K = int b ^ q"
  define L where "L = int b ^ p"
  note lo' = lo [folded K_def] and hi' = hi [folded L_def]
  have "of_int K \<le> x / u" using assms(3) upos unfolding lo' by (simp add: field_simps)
  then have "rhe (of_int K) \<le> rhe (x / u)" by (rule rhe_mono)
  then have "K \<le> rhe (x / u)" by (simp only: rhe_of_int)
  then have "(of_int K :: rat) \<le> of_int (rhe (x / u))" by (simp only: of_int_le_iff)
  then show "of_nat b powi e \<le> round_sig b p x"
    unfolding lo' rs using upos by (simp only: mult_le_cancel_right_pos)
  have "x / u \<le> of_int L" using assms(4) upos unfolding hi' by (simp add: field_simps)
  then have "rhe (x / u) \<le> rhe (of_int L)" by (rule rhe_mono)
  then have "rhe (x / u) \<le> L" by (simp only: rhe_of_int)
  then have "(of_int (rhe (x / u)) :: rat) \<le> of_int L" by (simp only: of_int_le_iff)
  then show "round_sig b p x \<le> of_nat b powi (e + 1)"
    unfolding hi' rs using upos by (simp only: mult_le_cancel_right_pos)
qed

lemma round_sig_pos:
  assumes "2 \<le> b" "0 < p" "0 < x"
  shows "0 < round_sig b p x"
proof -
  have "(0::rat) < of_nat b powi ilog b x" using assms(1) by simp
  also have "\<dots> \<le> round_sig b p x"
    using assms(1,2) ilog_spec [OF assms(1,3)] by (rule round_sig_range)
  finally show ?thesis .
qed

lemma round_sig_nonneg:
  assumes "2 \<le> b" "0 < p" "0 \<le> x"
  shows "0 \<le> round_sig b p x"
  using round_sig_pos [OF assms(1,2), of x] assms(3) by (cases "x = 0") auto

lemma round_sig_mono_pos:
  assumes "2 \<le> b" "0 < p" "0 < x" "x \<le> y"
  shows "round_sig b p x \<le> round_sig b p y"
proof -
  have ypos: "0 < y" using assms by linarith
  have b1: "(1::rat) \<le> of_nat b" using assms(1) by simp
  note sx = ilog_spec [OF assms(1,3)] and sy = ilog_spec [OF assms(1) ypos]
  have le: "ilog b x \<le> ilog b y"
  proof (rule ccontr)
    assume "\<not> ilog b x \<le> ilog b y"
    then have "ilog b y + 1 \<le> ilog b x" by simp
    then have "(of_nat b :: rat) powi (ilog b y + 1) \<le> of_nat b powi ilog b x"
      using b1 by (rule power_int_increasing)
    then show False using sx(1) sy(2) assms(4) by linarith
  qed
  show ?thesis
  proof (cases "ilog b x = ilog b y")
    case True
    define u :: rat where "u = of_nat b powi (ilog b y - int p + 1)"
    have upos: "0 < u" using assms(1) by (simp add: u_def)
    have "x / u \<le> y / u" using assms(4) upos by (simp add: divide_right_mono)
    then have "rhe (x / u) \<le> rhe (y / u)" by (rule rhe_mono)
    then have "(of_int (rhe (x / u)) :: rat) * u \<le> of_int (rhe (y / u)) * u"
      using upos by (simp add: mult_right_mono)
    then show ?thesis
      using assms(3) ypos True by (simp add: round_sig_def Let_def u_def)
  next
    case False
    then have "ilog b x + 1 \<le> ilog b y" using le by simp
    then have "(of_nat b :: rat) powi (ilog b x + 1) \<le> of_nat b powi ilog b y"
      using b1 by (rule power_int_increasing)
    moreover have "round_sig b p x \<le> of_nat b powi (ilog b x + 1)"
      using assms(1,2) sx by (rule round_sig_range)
    moreover have "of_nat b powi ilog b y \<le> round_sig b p y"
      using assms(1,2) sy by (rule round_sig_range)
    ultimately show ?thesis by linarith
  qed
qed

lemma round_sig_mono:
  assumes "2 \<le> b" "0 < p" "x \<le> y"
  shows "round_sig b p x \<le> round_sig b p y"
proof -
  consider "0 < x" | "x \<le> 0" "0 \<le> y" | "y < 0" by linarith
  then show ?thesis
  proof cases
    case 1
    then show ?thesis using assms by (intro round_sig_mono_pos)
  next
    case 2
    have "0 \<le> round_sig b p (- x)" using assms 2 by (intro round_sig_nonneg) auto
    then have "round_sig b p x \<le> 0" by (simp add: round_sig_minus)
    moreover have "0 \<le> round_sig b p y" using assms 2 by (intro round_sig_nonneg)
    ultimately show ?thesis by linarith
  next
    case 3
    have "round_sig b p (- y) \<le> round_sig b p (- x)"
      using assms 3 by (intro round_sig_mono_pos) auto
    then show ?thesis by (simp add: round_sig_minus)
  qed
qed

lemma round_sig_idem_pos:
  assumes "2 \<le> b" "0 < p" "0 < x"
  shows "round_sig b p (round_sig b p x) = round_sig b p x"
proof -
  define e where "e = ilog b x"
  define u :: rat where "u = of_nat b powi (e - int p + 1)"
  define y where "y = round_sig b p x"
  have bne: "(of_nat b :: rat) \<noteq> 0" using assms(1) by simp
  have b1: "(1::rat) < of_nat b" using assms(1) by simp
  note sx = ilog_spec [OF assms(1,3), folded e_def]
  have yu: "y = of_int (rhe (x / u)) * u"
    using assms(3) by (simp add: y_def round_sig_def Let_def u_def e_def)
  have upos: "0 < u" using assms(1) by (simp add: u_def)
  have ry: "of_nat b powi e \<le> y" "y \<le> of_nat b powi (e + 1)"
    unfolding y_def using assms(1,2) sx by (rule round_sig_range)+
  have "(0::rat) < of_nat b powi e" using assms(1) by simp
  then have ypos: "0 < y" using ry(1) by linarith
  show ?thesis
  proof (cases "y < of_nat b powi (e + 1)")
    case True
    have "y / u = of_int (rhe (x / u))" using yu upos by simp
    then have "rhe (y / u) = rhe (x / u)" by simp
    then have "round_sig b p y = of_int (rhe (x / u)) * u"
      using round_sig_eqI [of b e y p "rhe (x / u)"] assms(1) ry(1) True ypos
      by (simp add: u_def)
    then show ?thesis using yu by (simp add: y_def)
  next
    case False
    then have yeq: "y = of_nat b powi (e + 1)" using ry(2) by simp
    obtain q where q: "p = Suc q" using assms(2) by (cases p) auto
    define u' :: rat where "u' = of_nat b powi (e + 1 - int p + 1)"
    have u'pos: "0 < u'" using assms(1) by (simp add: u'_def)
    have "e + 1 = int q + (e + 1 - int p + 1)" using q by simp
    then have split: "(of_nat b :: rat) powi (e + 1) = of_nat b powi (int q) * of_nat b powi (e + 1 - int p + 1)"
      using bne by (metis power_int_add)
    define K where "K = int b ^ q"
    have yq: "y = of_int K * u'" using split by (simp add: yeq u'_def K_def)
    then have "y / u' = of_int K" using u'pos by simp
    then have r: "rhe (y / u') = K" by (simp only: rhe_of_int)
    have "(of_nat b :: rat) powi (e + 1) < of_nat b powi (e + 1 + 1)"
      using b1 by (intro power_int_strict_increasing) auto
    then have "round_sig b p y = of_int K * u'"
      using round_sig_eqI [of b "e + 1" y p K] assms(1) r ypos yeq
      by (simp add: u'_def)
    then show ?thesis using yq by (simp add: y_def)
  qed
qed

lemma round_sig_idem:
  assumes "2 \<le> b" "0 < p"
  shows "round_sig b p (round_sig b p x) = round_sig b p x"
proof -
  consider "0 < x" | "x = 0" | "x < 0" by linarith
  then show ?thesis
  proof cases
    case 1 then show ?thesis using assms by (intro round_sig_idem_pos)
  next
    case 2 then show ?thesis by simp
  next
    case 3
    then have "round_sig b p (round_sig b p (- x)) = round_sig b p (- x)"
      using assms by (intro round_sig_idem_pos) auto
    then show ?thesis by (simp add: round_sig_minus)
  qed
qed

subsection \<open>binary64 arithmetic\<close>

lemma fl_0 [simp]: "fl 0 = 0"
  by (simp add: fl_def)

lemma fl_minus: "fl (- x) = - fl x"
  by (simp add: fl_def round_sig_minus)

lemma fl_mono: "x \<le> y \<Longrightarrow> fl x \<le> fl y"
  unfolding fl_def by (rule round_sig_mono) simp_all

lemma fl_nonneg: "0 \<le> x \<Longrightarrow> 0 \<le> fl x"
  using fl_mono [of 0 x] by simp

lemma fl_pos: "0 < x \<Longrightarrow> 0 < fl x"
  unfolding fl_def by (rule round_sig_pos) simp_all

lemma fl_idem [simp]: "fl (fl x) = fl x"
  unfolding fl_def by (rule round_sig_idem) simp_all

lemma fl_eqI:
  assumes "2 powi e \<le> \<bar>x\<bar>" "\<bar>x\<bar> < 2 powi (e + 1)"
    and "of_int m - 1/2 < x / 2 powi (e - 52)" "x / 2 powi (e - 52) < of_int m + 1/2"
    and "r = of_int m * 2 powi (e - 52)"
  shows "fl x = r"
proof -
  have "rhe (x / of_nat 2 powi (e - int 53 + 1)) = m"
    using assms(3,4) by (intro rhe_eqI) simp_all
  then have "round_sig 2 53 x = of_int m * of_nat 2 powi (e - int 53 + 1)"
    using assms(1,2) by (intro round_sig_eqI) simp_all
  then show ?thesis using assms(5) by (simp add: fl_def)
qed

lemma decimal_eqI:
  assumes "10 powi e \<le> \<bar>x\<bar>" "\<bar>x\<bar> < 10 powi (e + 1)"
    and "of_int m - 1/2 < x / 10 powi (e - 27)" "x / 10 powi (e - 27) < of_int m + 1/2"
    and "r = of_int m * 10 powi (e - 27)"
  shows "round_sig 10 28 x = r"
proof -
  have "rhe (x / of_nat 10 powi (e - int 28 + 1)) = m"
    using assms(3,4) by (intro rhe_eqI) simp_all
  then have "round_sig 10 28 x = of_int m * of_nat 10 powi (e - int 28 + 1)"
    using assms(1,2) by (intro round_sig_eqI) simp_all
  then show ?thesis using assms(5) by simp
qed

lemma py_round_eqI:
  assumes "of_int k - 1/2 < x * 10 ^ n" "x * 10 ^ n < of_int k + 1/2"
    and "fl (of_int k / 10 ^ n) = r"
  shows "py_round x n = r"
  using assms(3) rhe_eqI [OF assms(1,2)] by (simp add: py_round_def)

lemma py_round_mono: "x \<le> y \<Longrightarrow> py_round x n \<le> py_round y n"
  unfolding py_round_def
  by (intro fl_mono divide_right_mono) (simp_all add: rhe_mono mult_right_mono)

lemma py_round_nonneg: "0 \<le> x \<Longrightarrow> 0 \<le> py_round x n"
  using py_round_mono [of 0 x n] by (simp add: py_round_def)

section \<open>The empty transfer list\<close>

text \<open>
  C1. For an empty transfer list \<open>classify_wallet\<close> returns before the metrics pass, with
  the verdict NEUTRAL, the confidence 0.30 (the float of the literal) and the entity
  inference "unknown", whatever the subject address is.
\<close>

theorem classify_wallet_empty:
  "\<exists>r. classify_wallet [] wallet_address include_metrics = Inr r
       \<and> verdict r = ''NEUTRAL''
       \<and> confidence r = fl (30 / 100)
       \<and> entity_inference r = ''unknown''
       \<and> behavior_summary r = NoTransactionData"
  by (simp add: classify_wallet_def VERDICT_NEUTRAL_def ENTITY_UNKNOWN_def)

end
